theory Spec2Isabelle
  imports Complex_Main
begin

section \<open>Values of the host language\<close>

text \<open>
  The helpers of \<^verbatim>\<open>lib/helpers\<close> (\<^verbatim>\<open>splitpropchain\<close>, \<^verbatim>\<open>get\<close>, \<^verbatim>\<open>cast\<close>,
  \<^verbatim>\<open>getMixinArgs\<close>, \<^verbatim>\<open>findMixinArg\<close>, \<^verbatim>\<open>parseGenericResponse\<close>, \<^verbatim>\<open>formatString\<close>)
  work on deserialised JSON: \<^verbatim>\<open>null\<close>, booleans, numbers, strings, arrays and plain
  objects, together with \<^verbatim>\<open>undefined\<close>, which a read of an absent property produces.
  An object is the list of its own properties in insertion order; a read takes the first
  entry of a name. Numbers are never inspected by the helpers except for their type tag
  and their truthiness, so they are modelled as reals. A character stands for one code
  unit of a JavaScript string (code units below 256).

  A read \<^verbatim>\<open>obj[prop]\<close> also finds the properties that a value inherits from the built-in
  prototype objects of the host (\<^verbatim>\<open>constructor\<close>, \<^verbatim>\<open>toString\<close>, \<^verbatim>\<open>__proto__\<close>, ...). What
  such a read gives is a built-in function or object of the host and no JSON value:
  \<open>JHost\<close> stands for one, named by a string.
\<close>

datatype jsval =
    JUndefined
  | JNull
  | JBool bool
  | JNum real
  | JStr string
  | JArr "jsval list"
  | JObj "(string \<times> jsval) list"
  | JHost string

text \<open>
  The exceptions the helpers can run into: the host's \<^verbatim>\<open>TypeError\<close>, and the \<^verbatim>\<open>Error\<close> that
  ThingTalk's \<^verbatim>\<open>Location\<close> constructor throws.
\<close>

datatype error = TypeError | Error

text \<open>Truthiness, as \<^verbatim>\<open>if (v)\<close> and \<^verbatim>\<open>a || b\<close> test it.\<close>

fun truthy :: "jsval \<Rightarrow> bool" where
  "truthy JUndefined = False"
| "truthy JNull = False"
| "truthy (JBool b) = b"
| "truthy (JNum n) = (n \<noteq> 0)"
| "truthy (JStr s) = (s \<noteq> [])"
| "truthy (JArr xs) = True"
| "truthy (JObj kvs) = True"
| "truthy (JHost h) = True"

text \<open>
  A property name is an array index when it is the canonical decimal form of a natural
  number: digits only, no leading zero except for \<^verbatim>\<open>"0"\<close> itself.
\<close>

definition is_digit :: "char \<Rightarrow> bool" where
  "is_digit c = (c \<in> set ''0123456789'')"

definition array_index :: "string \<Rightarrow> nat option" where
  "array_index k =
     (if k = [] \<or> \<not> list_all is_digit k \<or> (hd k = CHR ''0'' \<and> length k > 1) then None
      else Some (foldl (\<lambda>n c. 10 * n + (of_char c - 48)) 0 k))"

text \<open>
  The names of the properties that the built-in prototype objects define, after
  ECMAScript 2025 and its annex B. A name that a given host does not define reads as
  \<^verbatim>\<open>undefined\<close> there, which the host of the model below can say; so the lists may hold
  more names than a host has, never fewer.
\<close>

definition object_prototype :: "string list" where
  "object_prototype =
     [''constructor'', ''hasOwnProperty'', ''isPrototypeOf'', ''propertyIsEnumerable'',
      ''toLocaleString'', ''toString'', ''valueOf'', ''__proto__'', ''__defineGetter__'',
      ''__defineSetter__'', ''__lookupGetter__'', ''__lookupSetter__'']"

definition array_prototype :: "string list" where
  "array_prototype =
     [''at'', ''concat'', ''copyWithin'', ''entries'', ''every'', ''fill'', ''filter'',
      ''find'', ''findIndex'', ''findLast'', ''findLastIndex'', ''flat'', ''flatMap'',
      ''forEach'', ''includes'', ''indexOf'', ''join'', ''keys'', ''lastIndexOf'', ''map'',
      ''pop'', ''push'', ''reduce'', ''reduceRight'', ''reverse'', ''shift'', ''slice'',
      ''some'', ''sort'', ''splice'', ''toReversed'', ''toSorted'', ''toSpliced'',
      ''unshift'', ''values'', ''with'', ''group'', ''groupBy'', ''groupToMap'']"

definition string_prototype :: "string list" where
  "string_prototype =
     [''at'', ''charAt'', ''charCodeAt'', ''codePointAt'', ''concat'', ''endsWith'',
      ''includes'', ''indexOf'', ''isWellFormed'', ''lastIndexOf'', ''localeCompare'',
      ''match'', ''matchAll'', ''normalize'', ''padEnd'', ''padStart'', ''repeat'',
      ''replace'', ''replaceAll'', ''search'', ''slice'', ''split'', ''startsWith'',
      ''substr'', ''substring'', ''toLocaleLowerCase'', ''toLocaleUpperCase'',
      ''toLowerCase'', ''toUpperCase'', ''toWellFormed'', ''trim'', ''trimEnd'',
      ''trimLeft'', ''trimRight'', ''trimStart'', ''anchor'', ''big'', ''blink'', ''bold'',
      ''fixed'', ''fontcolor'', ''fontsize'', ''italics'', ''link'', ''small'', ''strike'',
      ''sub'', ''sup'']"

definition number_prototype :: "string list" where
  "number_prototype = [''toExponential'', ''toFixed'', ''toPrecision'']"

text \<open>
  The names a value inherits. \<^verbatim>\<open>Boolean.prototype\<close> defines \<^verbatim>\<open>constructor\<close>, \<^verbatim>\<open>toString\<close> and
  \<^verbatim>\<open>valueOf\<close> only, which are names of \<^verbatim>\<open>Object.prototype\<close> as well.
\<close>

fun inherited_names :: "jsval \<Rightarrow> string list" where
  "inherited_names (JObj kvs) = object_prototype"
| "inherited_names (JArr xs) = array_prototype @ object_prototype"
| "inherited_names (JStr s) = string_prototype @ object_prototype"
| "inherited_names (JNum n) = number_prototype @ object_prototype"
| "inherited_names (JBool b) = object_prototype"
| "inherited_names v = []"

text \<open>
  The host, which is not in this repository, is a parameter: \<open>builtin H v k\<close> is what the
  read of the inherited property \<open>k\<close> of the value \<open>v\<close> of JSON gives, which is a data
  property of a prototype object or its \<^verbatim>\<open>__proto__\<close>, so the read returns. \<open>reads H h k\<close> is
  the read of the property \<open>k\<close> of the built-in object \<open>h\<close>, which can raise (the accessors
  \<^verbatim>\<open>caller\<close> and \<^verbatim>\<open>arguments\<close> of a built-in function do); \<open>owns H h k\<close> says whether
  \<open>h\<close> has an own property \<open>k\<close>. A built-in object that is an array (\<^verbatim>\<open>Array.prototype\<close>)
  is given as an array; \<open>JHost\<close> stands for the others, the built-in functions and the
  prototype objects that are no arrays: they have no method \<^verbatim>\<open>map\<close>, and they convert to
  a primitive value.
\<close>

record host =
  builtin :: "jsval \<Rightarrow> string \<Rightarrow> jsval"
  reads :: "string \<Rightarrow> string \<Rightarrow> error + jsval"
  owns :: "string \<Rightarrow> string \<Rightarrow> bool"

text \<open>
  A host for closed examples: every inherited property reads as a built-in object named
  after the property, and a built-in object has no property of its own.
\<close>

definition opaque_host :: host where
  "opaque_host =
     \<lparr>builtin = (\<lambda>v k. JHost k), reads = (\<lambda>h k. Inr JUndefined), owns = (\<lambda>h k. False)\<rparr>"

text \<open>
  The read \<^verbatim>\<open>obj[prop]\<close>. On \<^verbatim>\<open>undefined\<close> and \<^verbatim>\<open>null\<close> it raises a \<^verbatim>\<open>TypeError\<close>. On every
  other value of JSON it returns the own property of that name, when there is one (arrays
  and strings own \<^verbatim>\<open>length\<close> and their indices), the built-in property, when the name is
  inherited, and \<^verbatim>\<open>undefined\<close> otherwise. On a built-in object it is the read of the host.
\<close>

definition inherited :: "host \<Rightarrow> jsval \<Rightarrow> string \<Rightarrow> jsval" where
  "inherited H v prop = (if prop \<in> set (inherited_names v) then builtin H v prop else JUndefined)"

fun js_get :: "host \<Rightarrow> jsval \<Rightarrow> string \<Rightarrow> error + jsval" where
  "js_get H JUndefined prop = Inl TypeError"
| "js_get H JNull prop = Inl TypeError"
| "js_get H (JBool b) prop = Inr (inherited H (JBool b) prop)"
| "js_get H (JNum n) prop = Inr (inherited H (JNum n) prop)"
| "js_get H (JStr s) prop =
     (if prop = ''length'' then Inr (JNum (real (length s)))
      else case array_index prop of
             Some i \<Rightarrow> Inr (if i < length s then JStr [s ! i] else JUndefined)
           | None \<Rightarrow> Inr (inherited H (JStr s) prop))"
| "js_get H (JArr xs) prop =
     (if prop = ''length'' then Inr (JNum (real (length xs)))
      else case array_index prop of
             Some i \<Rightarrow> Inr (if i < length xs then xs ! i else JUndefined)
           | None \<Rightarrow> Inr (inherited H (JArr xs) prop))"
| "js_get H (JObj kvs) prop =
     Inr (case map_of kvs prop of Some v \<Rightarrow> v | None \<Rightarrow> inherited H (JObj kvs) prop)"
| "js_get H (JHost h) prop = reads H h prop"

text \<open>
  \<^verbatim>\<open>Object.prototype.hasOwnProperty.call(value, prop)\<close>: the receiver is converted to an
  object first, which raises a \<^verbatim>\<open>TypeError\<close> on \<^verbatim>\<open>undefined\<close> and \<^verbatim>\<open>null\<close>.
\<close>

fun hasOwnProperty :: "host \<Rightarrow> jsval \<Rightarrow> string \<Rightarrow> error + bool" where
  "hasOwnProperty H JUndefined prop = Inl TypeError"
| "hasOwnProperty H JNull prop = Inl TypeError"
| "hasOwnProperty H (JBool b) prop = Inr False"
| "hasOwnProperty H (JNum n) prop = Inr False"
| "hasOwnProperty H (JStr s) prop =
     Inr (prop = ''length'' \<or> (case array_index prop of Some i \<Rightarrow> i < length s | None \<Rightarrow> False))"
| "hasOwnProperty H (JArr xs) prop =
     Inr (prop = ''length'' \<or> (case array_index prop of Some i \<Rightarrow> i < length xs | None \<Rightarrow> False))"
| "hasOwnProperty H (JObj kvs) prop = Inr (map_of kvs prop \<noteq> None)"
| "hasOwnProperty H (JHost h) prop = Inr (owns H h prop)"


section \<open>The property-path parser\<close>

text \<open>
  \<^verbatim>\<open>splitpropchain\<close> searches the next match of \<^verbatim>\<open>/[\\.]/g\<close> from the position \<^verbatim>\<open>i\<close>
  where the previous match ended. In the model \<open>rest\<close> is the input from \<^verbatim>\<open>i\<close> on; the
  text before the match is \<open>takeWhile\<close>, the match and what follows it is \<open>dropWhile\<close>.
  With no further match the loop ends, the remaining text joins the buffer and the buffer
  is pushed.
\<close>

definition backslash :: char where
  "backslash = CHR 0x5C"

definition is_match :: "char \<Rightarrow> bool" where
  "is_match c = (c = backslash \<or> c = CHR ''.'')"

function splitpropchain_loop ::
  "string list \<Rightarrow> string \<Rightarrow> bool \<Rightarrow> string \<Rightarrow> string list" where
  "splitpropchain_loop chain buffer escape rest =
     (let pre = takeWhile (\<lambda>c. \<not> is_match c) rest in
      case dropWhile (\<lambda>c. \<not> is_match c) rest of
        [] \<Rightarrow> chain @ [buffer @ pre]
      | m # rest' \<Rightarrow>
          (let escape1 = (if pre \<noteq> [] then False else escape);
               buffer1 = buffer @ pre
           in if m = backslash then
                (if escape1 then splitpropchain_loop chain (buffer1 @ [backslash]) False rest'
                 else splitpropchain_loop chain buffer1 True rest')
              else
                (if escape1 then splitpropchain_loop chain (buffer1 @ ''.'') False rest'
                 else splitpropchain_loop (chain @ [buffer1]) [] escape1 rest')))"
  by pat_completeness auto
termination
proof -
  have shorter: "length r < length xs" if "dropWhile P xs = m # r"
    for P and xs :: string and m r
    using that length_dropWhile_le [of P xs] by simp
  show ?thesis
    by (relation "measure (\<lambda>(chain, buffer, escape, rest). length rest)")
       (auto dest: shorter)
qed

declare splitpropchain_loop.simps [simp del]

definition splitpropchain :: "string \<Rightarrow> string list" where
  "splitpropchain propchainstring = splitpropchain_loop [] [] False propchainstring"

text \<open>\<^verbatim>\<open>segments.join('.')\<close>, the other direction of the round trip.\<close>

fun join_dots :: "string list \<Rightarrow> string" where
  "join_dots [] = []"
| "join_dots [s] = s"
| "join_dots (s # t # ss) = s @ ''.'' @ join_dots (t # ss)"

section \<open>The value getter\<close>

text \<open>\<^verbatim>\<open>for (let prop of ...) obj = obj[prop]\<close>: the loop of \<^verbatim>\<open>get\<close>.\<close>

fun get_loop :: "host \<Rightarrow> jsval \<Rightarrow> string list \<Rightarrow> error + jsval" where
  "get_loop H obj [] = Inr obj"
| "get_loop H obj (prop # props) =
     (case js_get H obj prop of Inl e \<Rightarrow> Inl e | Inr v \<Rightarrow> get_loop H v props)"

definition get :: "host \<Rightarrow> jsval \<Rightarrow> string \<Rightarrow> error + jsval" where
  "get H obj propchain = get_loop H obj (splitpropchain propchain)"

section \<open>The type coercion engine\<close>

text \<open>
  Modelled from the spec: the declared type of an argument, the spec's Semantic Type.
  The type class is ThingTalk's and is not in this repository; \<^verbatim>\<open>cast\<close> reads its tags
  \<^verbatim>\<open>isArray\<close>, \<^verbatim>\<open>isDate\<close>, \<^verbatim>\<open>isNumber\<close>, \<^verbatim>\<open>isMeasure\<close>, \<^verbatim>\<open>isCurrency\<close>, \<^verbatim>\<open>isEntity\<close>,
  \<^verbatim>\<open>isLocation\<close> and the field \<^verbatim>\<open>elem\<close> of an array type. The string and boolean types
  have none of the tags.
\<close>

datatype ttype =
    TString
  | TNumber
  | TBoolean
  | TArray ttype
  | TDate
  | TMeasure
  | TCurrency
  | TEntity
  | TLocation


text \<open>Sequencing of two steps, the first of which may raise.\<close>

definition and_then :: "error + 'a \<Rightarrow> ('a \<Rightarrow> error + 'b) \<Rightarrow> error + 'b" where
  "and_then m f = (case m of Inl e \<Rightarrow> Inl e | Inr x \<Rightarrow> f x)"







section \<open>The mixin argument accessor\<close>

text \<open>
  Modelled from the spec: a mixin block, the ordered list of its input parameters, each
  a name and a value of ThingTalk's value class. The class is not in this repository;
  \<open>toJS\<close> stands for its method \<^verbatim>\<open>toJS()\<close>.
\<close>

record 'v in_param =
  param_name :: string
  param_value :: 'v

record 'v mixin =
  in_params :: "'v in_param list"

text \<open>
  The assignment \<^verbatim>\<open>args[name] = v\<close> on an object made by \<^verbatim>\<open>{}\<close>, as a step on the own
  properties of the object. For the name \<^verbatim>\<open>__proto__\<close> the assignment runs the setter that
  every plain object inherits, which changes the prototype of the object or does
  nothing: it adds no own property.
\<close>

definition js_set :: "(string \<rightharpoonup> jsval) \<Rightarrow> string \<Rightarrow> jsval \<Rightarrow> (string \<rightharpoonup> jsval)" where
  "js_set obj k v = (if k = ''__proto__'' then obj else obj(k \<mapsto> v))"

text \<open>
  \<^verbatim>\<open>getMixinArgs\<close> assigns \<^verbatim>\<open>args[in_param.name]\<close> in a fresh object for each parameter in
  turn, and returns the object, here the map of its own properties; \<^verbatim>\<open>findMixinArg\<close> returns
  from inside its loop.
\<close>

fun getMixinArgs_loop ::
  "('v \<Rightarrow> jsval) \<Rightarrow> 'v in_param list \<Rightarrow> (string \<rightharpoonup> jsval) \<Rightarrow> (string \<rightharpoonup> jsval)" where
  "getMixinArgs_loop toJS [] args = args"
| "getMixinArgs_loop toJS (in_param # rest) args =
     getMixinArgs_loop toJS rest (js_set args (param_name in_param) (toJS (param_value in_param)))"

definition getMixinArgs :: "('v \<Rightarrow> jsval) \<Rightarrow> 'v mixin \<Rightarrow> (string \<rightharpoonup> jsval)" where
  "getMixinArgs toJS m = getMixinArgs_loop toJS (in_params m) Map.empty"

fun findMixinArg_loop :: "('v \<Rightarrow> jsval) \<Rightarrow> 'v in_param list \<Rightarrow> string \<Rightarrow> jsval" where
  "findMixinArg_loop toJS [] arg = JUndefined"
| "findMixinArg_loop toJS (in_param # rest) arg =
     (if param_name in_param = arg then toJS (param_value in_param)
      else findMixinArg_loop toJS rest arg)"

definition findMixinArg :: "('v \<Rightarrow> jsval) \<Rightarrow> 'v mixin \<Rightarrow> string \<Rightarrow> jsval" where
  "findMixinArg toJS m arg = findMixinArg_loop toJS (in_params m) arg"

section \<open>The response extractor\<close>

text \<open>
  Modelled from the spec: an argument descriptor of a function signature, with its
  name, its direction, its declared type and the annotation \<^verbatim>\<open>json_key\<close>, when it has one
  (the string that \<^verbatim>\<open>toJS()\<close> gives), and the signature itself. The signature class is
  ThingTalk's and is not in this repository; the extractor uses its list \<^verbatim>\<open>args\<close> of
  argument names, its method \<^verbatim>\<open>getArgument\<close> and its own annotation \<^verbatim>\<open>json_key\<close>.
\<close>

record argument =
  arg_name :: string
  is_input :: bool
  arg_type :: ttype
  arg_json_key :: "string option"

record function_def =
  args :: "string list"
  getArgument :: "string \<Rightarrow> argument"
  json_key :: "string option"








section \<open>The placeholder formatter\<close>

text \<open>
  Modelled from the spec: what \<^verbatim>\<open>interpolate\<close> of the package \<^verbatim>\<open>string-interp\<close> writes for
  a placeholder. The package is not in this repository. A string value replaces its
  placeholder; what is written for any other value (a missing one included: with
  \<^verbatim>\<open>failIfMissing: false\<close>, the only mode the formatter uses, the package does not abort)
  is the parameter \<open>render\<close>.
\<close>

definition substitute :: "(string \<Rightarrow> jsval \<Rightarrow> string) \<Rightarrow> string \<Rightarrow> jsval \<Rightarrow> string" where
  "substitute render name v = (case v of JStr s \<Rightarrow> s | _ \<Rightarrow> render name v)"

text \<open>
  Modelled from the spec: the function \<^verbatim>\<open>interpolate\<close> of the package \<^verbatim>\<open>string-interp\<close>,
  which \<^verbatim>\<open>formatString\<close> calls. It scans the template for placeholders \<^verbatim>\<open>${name}\<close> and asks
  the callback for the value of each name, from left to right; an exception of the
  callback ends the call.
\<close>

function interpolate ::
  "(string \<Rightarrow> jsval \<Rightarrow> string) \<Rightarrow> string \<Rightarrow> (string \<Rightarrow> error + jsval) \<Rightarrow> error + string" where
  "interpolate render [] resolve = Inr []"
| "interpolate render (c # cs) resolve =
     (if c = CHR ''$'' \<and> take 1 cs = ''{'' \<and> CHR ''}'' \<in> set cs then
        (let name = takeWhile (\<lambda>d. d \<noteq> CHR ''}'') (tl cs);
             rest = tl (dropWhile (\<lambda>d. d \<noteq> CHR ''}'') (tl cs))
         in and_then (resolve name) (\<lambda>v.
            and_then (interpolate render rest resolve) (\<lambda>out.
              Inr (substitute render name v @ out))))
      else and_then (interpolate render cs resolve) (\<lambda>out. Inr (c # out)))"
  by pat_completeness auto
termination
proof -
  have shorter: "length (dropWhile P (tl xs)) - Suc 0 < Suc (length xs)"
    for P and xs :: string
    using length_dropWhile_le [of P "tl xs"] by simp
  show ?thesis
    by (relation "measure (\<lambda>(render, template, resolve). length template)")
       (auto simp: shorter)
qed

text \<open>
  \<^verbatim>\<open>formatString(url, deviceParams, functionParams)\<close>: the callback reads
  \<^verbatim>\<open>functionParams[param] || deviceParams[param]\<close> when \<^verbatim>\<open>functionParams\<close> is truthy and
  \<^verbatim>\<open>deviceParams[param]\<close> otherwise. A call without the third argument has
  \<^verbatim>\<open>functionParams\<close> undefined.
\<close>

definition formatString_param :: "host \<Rightarrow> jsval \<Rightarrow> jsval \<Rightarrow> string \<Rightarrow> error + jsval" where
  "formatString_param H deviceParams functionParams param =
     (if truthy functionParams then
        and_then (js_get H functionParams param) (\<lambda>a.
          if truthy a then Inr a else js_get H deviceParams param)
      else js_get H deviceParams param)"

definition formatString ::
  "host \<Rightarrow> (string \<Rightarrow> jsval \<Rightarrow> string) \<Rightarrow> string \<Rightarrow> jsval \<Rightarrow> jsval \<Rightarrow> error + string" where
  "formatString H render url deviceParams functionParams =
     interpolate render url (formatString_param H deviceParams functionParams)"

section \<open>Properties of the property-path parser\<close>

text \<open>One round of the loop, by the outcome of the search for the next match.\<close>

lemma splitpropchain_loop_end:
  assumes "dropWhile (\<lambda>c. \<not> is_match c) rest = []"
  shows "splitpropchain_loop chain buffer escape rest
         = chain @ [buffer @ takeWhile (\<lambda>c. \<not> is_match c) rest]"
  by (subst splitpropchain_loop.simps) (simp only: assms Let_def list.case)

lemma splitpropchain_loop_step:
  assumes "dropWhile (\<lambda>c. \<not> is_match c) rest = m # rest'"
  shows "splitpropchain_loop chain buffer escape rest =
     (let pre = takeWhile (\<lambda>c. \<not> is_match c) rest;
          escape1 = (if pre \<noteq> [] then False else escape);
          buffer1 = buffer @ pre
      in if m = backslash then
           (if escape1 then splitpropchain_loop chain (buffer1 @ [backslash]) False rest'
            else splitpropchain_loop chain buffer1 True rest')
         else
           (if escape1 then splitpropchain_loop chain (buffer1 @ ''.'') False rest'
            else splitpropchain_loop (chain @ [buffer1]) [] escape1 rest'))"
  by (subst splitpropchain_loop.simps) (simp only: assms Let_def list.case)

lemma splitpropchain_loop_nonempty: "splitpropchain_loop chain buffer escape rest \<noteq> []"
proof (induction chain buffer escape rest rule: splitpropchain_loop.induct)
  case (1 chain buffer escape rest)
  show ?case
  proof (cases "dropWhile (\<lambda>c. \<not> is_match c) rest")
    case Nil
    then show ?thesis by (simp add: splitpropchain_loop_end)
  next
    case (Cons m rest')
    then show ?thesis
      using "1.IH" [OF refl Cons refl refl]
      by (auto simp: splitpropchain_loop_step [OF Cons] Let_def)
  qed
qed

lemma splitpropchain_loop_plain:
  assumes "\<forall>c\<in>set seg. \<not> is_match c"
  shows "splitpropchain_loop chain buffer escape seg = chain @ [buffer @ seg]"
proof -
  have "dropWhile (\<lambda>c. \<not> is_match c) seg = []" "takeWhile (\<lambda>c. \<not> is_match c) seg = seg"
    using assms by auto
  then show ?thesis by (simp add: splitpropchain_loop_end)
qed

lemma splitpropchain_loop_dot:
  assumes "\<forall>c\<in>set seg. \<not> is_match c"
  shows "splitpropchain_loop chain buffer False (seg @ CHR ''.'' # rest)
         = splitpropchain_loop (chain @ [buffer @ seg]) [] False rest"
proof -
  have m: "is_match CHR ''.''" by (simp add: is_match_def)
  have d: "dropWhile (\<lambda>c. \<not> is_match c) (seg @ CHR ''.'' # rest) = CHR ''.'' # rest"
    using assms m by (simp add: dropWhile_append3)
  have t: "takeWhile (\<lambda>c. \<not> is_match c) (seg @ CHR ''.'' # rest) = seg"
    using assms m by simp
  show ?thesis
    by (simp add: splitpropchain_loop_step [OF d] t backslash_def)
qed

lemma splitpropchain_loop_join:
  assumes "segs \<noteq> []" "\<forall>seg\<in>set segs. \<forall>c\<in>set seg. \<not> is_match c"
  shows "splitpropchain_loop chain [] False (join_dots segs) = chain @ segs"
  using assms
proof (induction segs arbitrary: chain rule: join_dots.induct)
  case 1
  then show ?case by simp
next
  case (2 s)
  then show ?case by (simp add: splitpropchain_loop_plain)
next
  case (3 s t ss)
  have "splitpropchain_loop chain [] False (join_dots (s # t # ss))
        = splitpropchain_loop (chain @ [s]) [] False (join_dots (t # ss))"
    using "3.prems" splitpropchain_loop_dot [of s chain "[]" "join_dots (t # ss)"] by simp
  also have "\<dots> = (chain @ [s]) @ (t # ss)"
    using "3.IH" [of "chain @ [s]"] "3.prems" by simp
  finally show ?case by simp
qed

text \<open>
  Claim C5. Round trip: for every non-empty sequence of segments, none of which holds a
  dot or a backslash, splitting the segments joined with dots gives the segments back.
\<close>

theorem splitpropchain_roundtrip:
  assumes "segs \<noteq> []"
    and "\<forall>seg\<in>set segs. CHR ''.'' \<notin> set seg \<and> backslash \<notin> set seg"
  shows "splitpropchain (join_dots segs) = segs"
proof -
  have "\<forall>seg\<in>set segs. \<forall>c\<in>set seg. \<not> is_match c"
    using assms(2) by (auto simp: is_match_def)
  then show ?thesis
    using splitpropchain_loop_join [OF assms(1), of "[]"] by (simp add: splitpropchain_def)
qed

theorem splitpropchain_roundtrip_witness:
  "splitpropchain (join_dots [''items'', '''', ''0'']) = [''items'', '''', ''0'']"
  using splitpropchain_roundtrip [of "[''items'', '''', ''0'']"] by (simp add: backslash_def)

lemma splitpropchain_loop_plain_char:
  assumes "\<not> is_match c"
  shows "splitpropchain_loop chain buffer escape (c # rest)
         = splitpropchain_loop chain (buffer @ [c]) False rest"
proof (cases "dropWhile (\<lambda>c. \<not> is_match c) rest")
  case Nil
  then have "dropWhile (\<lambda>c. \<not> is_match c) (c # rest) = []" using assms by simp
  then show ?thesis using Nil assms by (simp add: splitpropchain_loop_end)
next
  case (Cons m rest')
  then have "dropWhile (\<lambda>c. \<not> is_match c) (c # rest) = m # rest'" using assms by simp
  then show ?thesis
    using assms by (simp add: splitpropchain_loop_step [OF Cons] splitpropchain_loop_step Let_def)
qed

lemma splitpropchain_loop_escaped:
  "splitpropchain_loop chain buffer False (backslash # c # rest)
   = splitpropchain_loop chain (buffer @ [c]) False rest"
proof -
  have b: "is_match backslash" by (simp add: is_match_def)
  have 1: "splitpropchain_loop chain buffer False (backslash # c # rest)
           = splitpropchain_loop chain buffer True (c # rest)"
    using b by (simp add: splitpropchain_loop_step [of "backslash # c # rest" backslash "c # rest"])
  show ?thesis
  proof (cases "is_match c")
    case True
    then have "dropWhile (\<lambda>c. \<not> is_match c) (c # rest) = c # rest" by simp
    from splitpropchain_loop_step [OF this, of chain buffer True] True
    show ?thesis unfolding 1 by (auto simp: is_match_def)
  next
    case False
    then show ?thesis unfolding 1 by (rule splitpropchain_loop_plain_char)
  qed
qed

text \<open>
  Claim C6. A backslash escapes the character after it: with no escape pending, the
  loop on a backslash and a character goes on as with that character in the buffer. The
  last buffer is always pushed, so the result is never the empty sequence, whatever the
  input: the empty string gives one empty segment, a string that ends in a lone backslash
  still gives its segments, \<^verbatim>\<open>a\.b.c\<close> gives the segments \<^verbatim>\<open>a.b\<close> and \<^verbatim>\<open>c\<close>, and
  \<^verbatim>\<open>a\\b\<close> gives the one segment \<^verbatim>\<open>a\b\<close>.
\<close>

theorem splitpropchain_escape:
  "splitpropchain_loop chain buffer False (backslash # c # rest)
     = splitpropchain_loop chain (buffer @ [c]) False rest
   \<and> splitpropchain s \<noteq> []
   \<and> splitpropchain [] = [[]]
   \<and> splitpropchain (''a.b'' @ [backslash]) = [''a'', ''b'']
   \<and> splitpropchain (''a'' @ [backslash] @ ''.b.c'') = [''a.b'', ''c'']
   \<and> splitpropchain (''a'' @ [backslash, backslash] @ ''b'') = [''a'' @ [backslash] @ ''b'']"
proof -
  have "splitpropchain s \<noteq> []"
    by (simp add: splitpropchain_def splitpropchain_loop_nonempty)
  moreover have "splitpropchain [] = [[]]"
    by code_simp
  moreover have "splitpropchain (''a.b'' @ [backslash]) = [''a'', ''b'']"
    by code_simp
  moreover have "splitpropchain (''a'' @ [backslash] @ ''.b.c'') = [''a.b'', ''c'']"
    by code_simp
  moreover have "splitpropchain (''a'' @ [backslash, backslash] @ ''b'')
                 = [''a'' @ [backslash] @ ''b'']"
    by code_simp
  ultimately show ?thesis using splitpropchain_loop_escaped by blast
qed

theorem splitpropchain_escape_witness:
  "splitpropchain (''x'' @ [backslash]) \<noteq> []"
  using splitpropchain_escape [of _ _ _ _ "''x'' @ [backslash]"] by blast

section \<open>Properties of the value getter\<close>

lemma js_get_returns:
  "v \<noteq> JUndefined \<Longrightarrow> v \<noteq> JNull \<Longrightarrow> \<forall>h. v \<noteq> JHost h \<Longrightarrow> \<exists>r. js_get H v k = Inr r"
  by (cases v) (auto split: option.splits)

lemma get_loop_append:
  "get_loop H obj (pre @ rest)
   = (case get_loop H obj pre of Inl e \<Rightarrow> Inl e | Inr v \<Rightarrow> get_loop H v rest)"
  by (induction pre arbitrary: obj) (auto split: sum.splits)

lemma get_loop_raises:
  assumes "get_loop H obj pre = Inr JUndefined \<or> get_loop H obj pre = Inr JNull"
  shows "get_loop H obj (pre @ k # rest) = Inl TypeError"
  using assms by (auto simp: get_loop_append)

lemma get_loop_returns:
  assumes "\<forall>pre k rest. props = pre @ k # rest \<longrightarrow>
             (\<exists>v. get_loop H obj pre = Inr v \<and> v \<noteq> JUndefined \<and> v \<noteq> JNull
                \<and> (\<forall>h. v \<noteq> JHost h))"
  shows "\<exists>r. get_loop H obj props = Inr r"
  using assms
proof (induction props arbitrary: obj)
  case Nil
  then show ?case by simp
next
  case (Cons p ps)
  have "\<exists>v. get_loop H obj [] = Inr v \<and> v \<noteq> JUndefined \<and> v \<noteq> JNull \<and> (\<forall>h. v \<noteq> JHost h)"
    using Cons.prems [rule_format, of "[]" p ps] by simp
  then have "obj \<noteq> JUndefined" "obj \<noteq> JNull" "\<forall>h. obj \<noteq> JHost h" by auto
  then obtain w where w: "js_get H obj p = Inr w" using js_get_returns by blast
  have "\<forall>pre k rest. ps = pre @ k # rest \<longrightarrow>
             (\<exists>v. get_loop H w pre = Inr v \<and> v \<noteq> JUndefined \<and> v \<noteq> JNull
                \<and> (\<forall>h. v \<noteq> JHost h))"
  proof (intro allI impI)
    fix pre k rest
    assume "ps = pre @ k # rest"
    then have "p # ps = (p # pre) @ k # rest" by simp
    from Cons.prems [rule_format, OF this] w
    show "\<exists>v. get_loop H w pre = Inr v \<and> v \<noteq> JUndefined \<and> v \<noteq> JNull \<and> (\<forall>h. v \<noteq> JHost h)"
      by simp
  qed
  from Cons.IH [OF this] w show ?case by simp
qed

text \<open>
  Claim C1 says that \<^verbatim>\<open>get\<close> never raises and gives \<^verbatim>\<open>undefined\<close> wherever the walk meets
  \<^verbatim>\<open>undefined\<close>, \<^verbatim>\<open>null\<close> or a primitive with segments left. On the object of the claim's
  own examples the path \<^verbatim>\<open>a.c.d\<close> reads \<^verbatim>\<open>d\<close> from \<^verbatim>\<open>undefined\<close>, which raises.
\<close>

theorem get_raises_counterexample:
  "get opaque_host (JObj [(''a'', JObj [(''b'', JNum 5)])]) ''a.c.d'' = Inl TypeError"
proof -
  have "splitpropchain ''a.c.d'' = [''a'', ''c'', ''d'']" by code_simp
  then show ?thesis by (simp add: get_def inherited_def object_prototype_def)
qed

text \<open>
  Claim C1, amended. \<^verbatim>\<open>get\<close> raises a \<^verbatim>\<open>TypeError\<close> whenever a segment is read from
  \<^verbatim>\<open>undefined\<close> or \<^verbatim>\<open>null\<close>, that is whenever the walk along a proper prefix of the parsed
  path arrives at one of the two. It returns whenever each segment is read from a value
  that is neither \<^verbatim>\<open>undefined\<close> nor \<^verbatim>\<open>null\<close> nor a built-in object of the host. A number or
  a boolean with exactly one segment left, which names no property that numbers and
  booleans inherit, gives \<^verbatim>\<open>undefined\<close>. The three examples of the claim hold on every
  host: \<^verbatim>\<open>get({a:{b:5}}, "a.b")\<close> is 5, and the paths \<^verbatim>\<open>a.c\<close> and \<^verbatim>\<open>a.b.c\<close> give
  \<^verbatim>\<open>undefined\<close>.
\<close>

theorem get_raises_on_nullish:
  "(splitpropchain propchain = pre @ k # rest
      \<and> (get_loop H obj pre = Inr JUndefined \<or> get_loop H obj pre = Inr JNull)
      \<longrightarrow> get H obj propchain = Inl TypeError)
   \<and> ((\<forall>pre k rest. splitpropchain propchain = pre @ k # rest \<longrightarrow>
          (\<exists>v. get_loop H obj pre = Inr v \<and> v \<noteq> JUndefined \<and> v \<noteq> JNull
             \<and> (\<forall>h. v \<noteq> JHost h)))
      \<longrightarrow> (\<exists>r. get H obj propchain = Inr r))
   \<and> (k \<notin> set (inherited_names (JNum n)) \<longrightarrow> get_loop H (JNum n) [k] = Inr JUndefined)
   \<and> (k \<notin> set (inherited_names (JBool b)) \<longrightarrow> get_loop H (JBool b) [k] = Inr JUndefined)
   \<and> get H (JObj [(''a'', JObj [(''b'', JNum 5)])]) ''a.b'' = Inr (JNum 5)
   \<and> get H (JObj [(''a'', JObj [(''b'', JNum 5)])]) ''a.c'' = Inr JUndefined
   \<and> get H (JObj [(''a'', JObj [(''b'', JNum 5)])]) ''a.b.c'' = Inr JUndefined"
proof -
  have s1: "splitpropchain ''a.b'' = [''a'', ''b'']" by code_simp
  have s2: "splitpropchain ''a.c'' = [''a'', ''c'']" by code_simp
  have s3: "splitpropchain ''a.b.c'' = [''a'', ''b'', ''c'']" by code_simp
  have 1: "get H obj propchain = Inl TypeError"
    if "splitpropchain propchain = pre @ k # rest"
      "get_loop H obj pre = Inr JUndefined \<or> get_loop H obj pre = Inr JNull"
    using that get_loop_raises [of H obj pre k rest] by (simp add: get_def)
  have 2: "\<exists>r. get H obj propchain = Inr r"
    if "\<forall>pre k rest. splitpropchain propchain = pre @ k # rest \<longrightarrow>
          (\<exists>v. get_loop H obj pre = Inr v \<and> v \<noteq> JUndefined \<and> v \<noteq> JNull
             \<and> (\<forall>h. v \<noteq> JHost h))"
    unfolding get_def by (rule get_loop_returns) (use that in blast)
  have 3: "get_loop H (JNum n) [k] = Inr JUndefined" if "k \<notin> set (inherited_names (JNum n))"
    using that by (simp add: inherited_def)
  have 4: "get_loop H (JBool b) [k] = Inr JUndefined" if "k \<notin> set (inherited_names (JBool b))"
    using that by (simp add: inherited_def)
  have 5: "get H (JObj [(''a'', JObj [(''b'', JNum 5)])]) ''a.b'' = Inr (JNum 5)"
    by (simp add: get_def s1)
  have 6: "get H (JObj [(''a'', JObj [(''b'', JNum 5)])]) ''a.c'' = Inr JUndefined"
    by (simp add: get_def s2 inherited_def object_prototype_def)
  have 7: "get H (JObj [(''a'', JObj [(''b'', JNum 5)])]) ''a.b.c'' = Inr JUndefined"
    by (simp add: get_def s3 inherited_def object_prototype_def number_prototype_def)
  show ?thesis
    using 1 2 3 4 5 6 7 by blast
qed

theorem get_raises_on_nullish_witness:
  "get opaque_host (JObj [(''a'', JNull)]) ''a.b'' = Inl TypeError
   \<and> (\<exists>r. get opaque_host (JObj [(''a'', JArr [JStr ''xy''])]) ''a.0.length'' = Inr r)
   \<and> get_loop opaque_host (JNum 5) [''c''] = Inr JUndefined
   \<and> get_loop opaque_host (JBool True) [''c''] = Inr JUndefined"
proof -
  note T = get_raises_on_nullish [of _ _ _ _ opaque_host]
  have s: "splitpropchain ''a.b'' = [''a''] @ ''b'' # []" by code_simp
  have "get_loop opaque_host (JObj [(''a'', JNull)]) [''a''] = Inr JNull" by simp
  with s have 1: "get opaque_host (JObj [(''a'', JNull)]) ''a.b'' = Inl TypeError"
    using T [of "''a.b''" "[''a'']" "''b''" "[]" "JObj [(''a'', JNull)]", THEN conjunct1]
    by blast
  have s2: "splitpropchain ''a.0.length'' = [''a'', ''0'', ''length'']" by code_simp
  have "\<exists>v. get_loop opaque_host (JObj [(''a'', JArr [JStr ''xy''])]) pre = Inr v
          \<and> v \<noteq> JUndefined \<and> v \<noteq> JNull \<and> (\<forall>h. v \<noteq> JHost h)"
    if "[''a'', ''0'', ''length''] = pre @ k # rest" for pre k rest
  proof -
    from that have "pre = [] \<or> pre = [''a''] \<or> pre = [''a'', ''0'']"
      by (auto simp: append_eq_Cons_conv Cons_eq_append_conv)
    then show ?thesis by (auto simp: array_index_def is_digit_def)
  qed
  then have 2: "\<exists>r. get opaque_host (JObj [(''a'', JArr [JStr ''xy''])]) ''a.0.length'' = Inr r"
    using T [of "''a.0.length''" _ _ _ "JObj [(''a'', JArr [JStr ''xy''])]",
        THEN conjunct2, THEN conjunct1] s2
    by simp
  have 3: "get_loop opaque_host (JNum 5) [''c''] = Inr JUndefined"
    using T [of _ _ "''c''" _ _ 5, THEN conjunct2, THEN conjunct2, THEN conjunct1]
    by (simp add: object_prototype_def number_prototype_def)
  have 4: "get_loop opaque_host (JBool True) [''c''] = Inr JUndefined"
    using T [of _ _ "''c''" _ _ _ True,
        THEN conjunct2, THEN conjunct2, THEN conjunct2, THEN conjunct1]
    by (simp add: object_prototype_def)
  from 1 2 3 4 show ?thesis by blast
qed

section \<open>Properties of the type coercion engine\<close>

lemma and_then_Inr [simp]: "and_then (Inr x) f = f x"
  by (simp add: and_then_def)

lemma and_then_Inl [simp]: "and_then (Inl e) f = Inl e"
  by (simp add: and_then_def)
















section \<open>Properties of the response extractor\<close>



















section \<open>Properties of the mixin argument accessor\<close>

lemma find_append:
  "List.find P (xs @ ys) = (case List.find P xs of None \<Rightarrow> List.find P ys | Some x \<Rightarrow> Some x)"
  by (induction xs) auto

lemma find_SomeD: "List.find P xs = Some x \<Longrightarrow> x \<in> set xs \<and> P x"
  by (induction xs) (auto split: if_splits)

lemma getMixinArgs_loop_lookup:
  "k \<noteq> ''__proto__'' \<Longrightarrow>
   getMixinArgs_loop toJS ps acc k =
     (case List.find (\<lambda>p. param_name p = k) (rev ps) of
        Some p \<Rightarrow> Some (toJS (param_value p))
      | None \<Rightarrow> acc k)"
  by (induction ps arbitrary: acc) (auto simp: find_append js_set_def split: option.splits)

lemma findMixinArg_loop_find:
  "findMixinArg_loop toJS ps arg =
     (case List.find (\<lambda>p. param_name p = arg) ps of
        Some p \<Rightarrow> toJS (param_value p)
      | None \<Rightarrow> JUndefined)"
  by (induction ps) auto

lemma getMixinArgs_dom:
  "dom (getMixinArgs toJS m) - {''__proto__''}
   = param_name ` set (in_params m) - {''__proto__''}"
proof -
  have "getMixinArgs toJS m k = None \<longleftrightarrow> k \<notin> param_name ` set (in_params m)"
    if k: "k \<noteq> ''__proto__''" for k
  proof (cases "List.find (\<lambda>p. param_name p = k) (rev (in_params m))")
    case None
    then have "getMixinArgs toJS m k = None"
      by (simp add: getMixinArgs_def getMixinArgs_loop_lookup [OF k])
    moreover have "k \<notin> param_name ` set (in_params m)"
      using None by (auto simp: find_None_iff)
    ultimately show ?thesis by simp
  next
    case (Some p)
    then have "p \<in> set (in_params m) \<and> param_name p = k"
      using find_SomeD [of "\<lambda>p. param_name p = k" "rev (in_params m)" p] by simp
    moreover have "getMixinArgs toJS m k \<noteq> None"
      using Some by (simp add: getMixinArgs_def getMixinArgs_loop_lookup [OF k])
    ultimately show ?thesis by auto
  qed
  then have "k \<in> dom (getMixinArgs toJS m) \<longleftrightarrow> k \<in> param_name ` set (in_params m)"
    if "k \<noteq> ''__proto__''" for k
    using that by (metis domIff)
  then show ?thesis by blast
qed

text \<open>
  Claim C9 says that \<^verbatim>\<open>getMixinArgs\<close> evaluates every pair into the mapping it returns. For
  a pair named \<^verbatim>\<open>__proto__\<close> the assignment \<^verbatim>\<open>args[name] = v\<close> adds no key: the block
  \<^verbatim>\<open>[(__proto__,'p'),(b,'q')]\<close> gives the mapping \<^verbatim>\<open>{b:'q'}\<close>.
\<close>

theorem mixin_proto_counterexample:
  "getMixinArgs id
     \<lparr>in_params = [\<lparr>param_name = ''__proto__'', param_value = JStr ''p''\<rparr>,
                   \<lparr>param_name = ''b'', param_value = JStr ''q''\<rparr>]\<rparr> = [''b'' \<mapsto> JStr ''q'']"
  by (simp add: getMixinArgs_def js_set_def)

text \<open>
  Claim C9, amended. \<^verbatim>\<open>findMixinArg\<close> returns the evaluated value of the first pair of the
  name, in declaration order, and \<^verbatim>\<open>undefined\<close> when there is none. \<^verbatim>\<open>getMixinArgs\<close> maps
  every name other than \<^verbatim>\<open>__proto__\<close> that a pair bears, and no other such name, to the
  evaluated value of the last pair of that name. For the block \<^verbatim>\<open>[(a,1),(a,2)]\<close> the first
  gives 1 and the second the mapping \<^verbatim>\<open>{a:2}\<close>.
\<close>

theorem mixin_first_match:
  "findMixinArg toJS m arg =
     (case List.find (\<lambda>p. param_name p = arg) (in_params m) of
        Some p \<Rightarrow> toJS (param_value p)
      | None \<Rightarrow> JUndefined)
   \<and> (arg \<noteq> ''__proto__'' \<longrightarrow>
        getMixinArgs toJS m arg =
          (case List.find (\<lambda>p. param_name p = arg) (rev (in_params m)) of
             Some p \<Rightarrow> Some (toJS (param_value p))
           | None \<Rightarrow> None))
   \<and> dom (getMixinArgs toJS m) - {''__proto__''}
      = param_name ` set (in_params m) - {''__proto__''}
   \<and> findMixinArg id
        \<lparr>in_params = [\<lparr>param_name = ''a'', param_value = JNum 1\<rparr>,
                      \<lparr>param_name = ''a'', param_value = JNum 2\<rparr>]\<rparr> ''a'' = JNum 1
   \<and> getMixinArgs id
        \<lparr>in_params = [\<lparr>param_name = ''a'', param_value = JNum 1\<rparr>,
                      \<lparr>param_name = ''a'', param_value = JNum 2\<rparr>]\<rparr> = [''a'' \<mapsto> JNum 2]"
proof -
  have 1: "getMixinArgs toJS m arg =
          (case List.find (\<lambda>p. param_name p = arg) (rev (in_params m)) of
             Some p \<Rightarrow> Some (toJS (param_value p))
           | None \<Rightarrow> None)" if "arg \<noteq> ''__proto__''"
    using that by (simp add: getMixinArgs_def getMixinArgs_loop_lookup)
  have 2: "getMixinArgs id
        \<lparr>in_params = [\<lparr>param_name = ''a'', param_value = JNum 1\<rparr>,
                      \<lparr>param_name = ''a'', param_value = JNum 2\<rparr>]\<rparr> = [''a'' \<mapsto> JNum 2]"
    by (simp add: getMixinArgs_def js_set_def)
  show ?thesis
    using 1 2 getMixinArgs_dom [of toJS m]
    by (simp add: findMixinArg_def findMixinArg_loop_find)
qed

theorem mixin_first_match_witness:
  "findMixinArg id
     \<lparr>in_params = [\<lparr>param_name = ''url'', param_value = JStr ''u''\<rparr>,
                   \<lparr>param_name = ''scope'', param_value = JNull\<rparr>,
                   \<lparr>param_name = ''url'', param_value = JStr ''v''\<rparr>]\<rparr> ''url'' = JStr ''u''
   \<and> getMixinArgs id
     \<lparr>in_params = [\<lparr>param_name = ''url'', param_value = JStr ''u''\<rparr>,
                   \<lparr>param_name = ''scope'', param_value = JNull\<rparr>,
                   \<lparr>param_name = ''url'', param_value = JStr ''v''\<rparr>]\<rparr> ''url'' = Some (JStr ''v'')
   \<and> findMixinArg id
     \<lparr>in_params = [\<lparr>param_name = ''url'', param_value = JStr ''u''\<rparr>]\<rparr> ''scope'' = JUndefined"
  using mixin_first_match [of id
      "\<lparr>in_params = [\<lparr>param_name = ''url'', param_value = JStr ''u''\<rparr>,
                   \<lparr>param_name = ''scope'', param_value = JNull\<rparr>,
                   \<lparr>param_name = ''url'', param_value = JStr ''v''\<rparr>]\<rparr>" "''url''"]
    mixin_first_match [of id
      "\<lparr>in_params = [\<lparr>param_name = ''url'', param_value = JStr ''u''\<rparr>]\<rparr>" "''scope''"]
  by simp

section \<open>Properties of the placeholder formatter\<close>

lemma interpolate_returns:
  "(\<And>name. \<exists>v. resolve name = Inr v) \<Longrightarrow> \<exists>s. interpolate render template resolve = Inr s"
proof (induction render template resolve rule: interpolate.induct)
  case (1 render resolve)
  then show ?case by simp
next
  case (2 render c cs resolve)
  show ?case
  proof (cases "c = CHR ''$'' \<and> take 1 cs = ''{'' \<and> CHR ''}'' \<in> set cs")
    case True
    obtain v where v: "resolve (takeWhile (\<lambda>d. d \<noteq> CHR ''}'') (tl cs)) = Inr v"
      using "2.prems" by blast
    obtain out where
      "interpolate render (tl (dropWhile (\<lambda>d. d \<noteq> CHR ''}'') (tl cs))) resolve = Inr out"
      using "2.IH"(1) True v "2.prems" by blast
    then show ?thesis using True v by (simp add: Let_def)
  next
    case False
    obtain out where "interpolate render cs resolve = Inr out"
      using "2.IH"(2) False "2.prems" by blast
    then show ?thesis using False by auto
  qed
qed

lemma formatString_param_returns:
  assumes "deviceParams \<noteq> JUndefined" "deviceParams \<noteq> JNull"
    and "\<forall>h. deviceParams \<noteq> JHost h" "\<forall>h. functionParams \<noteq> JHost h"
  shows "\<exists>v. formatString_param H deviceParams functionParams param = Inr v"
proof -
  obtain d where d: "js_get H deviceParams param = Inr d"
    using js_get_returns [OF assms(1,2,3)] by blast
  show ?thesis
  proof (cases "truthy functionParams")
    case True
    then have "functionParams \<noteq> JUndefined" "functionParams \<noteq> JNull" by auto
    then obtain a where "js_get H functionParams param = Inr a"
      using js_get_returns assms(4) by blast
    then show ?thesis using True d by (simp add: formatString_param_def)
  next
    case False
    then show ?thesis using d by (simp add: formatString_param_def)
  qed
qed

lemma formatString_returns:
  assumes "deviceParams \<noteq> JUndefined" "deviceParams \<noteq> JNull"
    and "\<forall>h. deviceParams \<noteq> JHost h" "\<forall>h. functionParams \<noteq> JHost h"
  shows "\<exists>s. formatString H render url deviceParams functionParams = Inr s"
  unfolding formatString_def
  by (rule interpolate_returns) (rule formatString_param_returns [OF assms])

text \<open>
  Claim C8. The callback of \<^verbatim>\<open>formatString\<close> takes the value of a placeholder from
  \<^verbatim>\<open>functionParams\<close> when that is supplied and holds a value for the name, and from
  \<^verbatim>\<open>deviceParams\<close> when \<^verbatim>\<open>functionParams\<close> is not supplied or holds nothing for the name.
  With \<^verbatim>\<open>deviceParams\<close> a mapping (any value of JSON but \<^verbatim>\<open>null\<close>) and \<^verbatim>\<open>functionParams\<close> a
  value of JSON or not supplied, the call returns for every template, unresolved names
  included. \<^verbatim>\<open>format("${x}", {x:"device"}, {x:"call"})\<close> is \<^verbatim>\<open>"call"\<close>,
  \<^verbatim>\<open>format("${x}", {x:"device"})\<close> is \<^verbatim>\<open>"device"\<close>, and \<^verbatim>\<open>format("${y}", {x:"device"})\<close> returns
  what the package writes for the unresolved \<^verbatim>\<open>y\<close>.
\<close>

theorem formatString_precedence:
  "(truthy functionParams \<and> js_get H functionParams param = Inr a \<and> truthy a
      \<longrightarrow> formatString_param H deviceParams functionParams param = Inr a)
   \<and> (truthy functionParams \<and> js_get H functionParams param = Inr JUndefined
      \<longrightarrow> formatString_param H deviceParams functionParams param = js_get H deviceParams param)
   \<and> (\<not> truthy functionParams
      \<longrightarrow> formatString_param H deviceParams functionParams param = js_get H deviceParams param)
   \<and> (deviceParams \<noteq> JUndefined \<and> deviceParams \<noteq> JNull
        \<and> (\<forall>h. deviceParams \<noteq> JHost h) \<and> (\<forall>h. functionParams \<noteq> JHost h)
      \<longrightarrow> (\<exists>s. formatString H render url deviceParams functionParams = Inr s))
   \<and> formatString H render ''${x}'' (JObj [(''x'', JStr ''device'')])
        (JObj [(''x'', JStr ''call'')]) = Inr ''call''
   \<and> formatString H render ''${x}'' (JObj [(''x'', JStr ''device'')]) JUndefined = Inr ''device''
   \<and> formatString H render ''${y}'' (JObj [(''x'', JStr ''device'')]) JUndefined
      = Inr (render ''y'' JUndefined)"
proof -
  have "formatString H render ''${x}'' (JObj [(''x'', JStr ''device'')])
        (JObj [(''x'', JStr ''call'')]) = Inr ''call''"
    by (simp add: formatString_def formatString_param_def substitute_def inherited_def
          object_prototype_def)
  moreover have
    "formatString H render ''${x}'' (JObj [(''x'', JStr ''device'')]) JUndefined = Inr ''device''"
    by (simp add: formatString_def formatString_param_def substitute_def inherited_def
          object_prototype_def)
  moreover have "formatString H render ''${y}'' (JObj [(''x'', JStr ''device'')]) JUndefined
      = Inr (render ''y'' JUndefined)"
    by (simp add: formatString_def formatString_param_def substitute_def inherited_def
          object_prototype_def)
  moreover have "deviceParams \<noteq> JUndefined \<and> deviceParams \<noteq> JNull
        \<and> (\<forall>h. deviceParams \<noteq> JHost h) \<and> (\<forall>h. functionParams \<noteq> JHost h)
      \<longrightarrow> (\<exists>s. formatString H render url deviceParams functionParams = Inr s)"
    using formatString_returns by blast
  ultimately show ?thesis by (simp add: formatString_param_def)
qed

theorem formatString_precedence_witness:
  "formatString_param opaque_host (JObj [(''x'', JStr ''device'')]) (JObj [(''x'', JStr ''call'')]) ''x''
     = Inr (JStr ''call'')
   \<and> formatString_param opaque_host (JObj [(''y'', JStr ''device'')]) (JObj [(''x'', JStr ''call'')]) ''y''
     = Inr (JStr ''device'')
   \<and> formatString_param opaque_host (JObj [(''y'', JStr ''device'')]) JUndefined ''y''
     = Inr (JStr ''device'')
   \<and> (\<exists>s. formatString opaque_host (\<lambda>name v. []) ''http://${host}/${y}'' (JObj [(''y'', JStr ''device'')])
          JUndefined = Inr s)"
proof -
  have "formatString_param opaque_host (JObj [(''x'', JStr ''device'')]) (JObj [(''x'', JStr ''call'')]) ''x''
     = Inr (JStr ''call'')"
    using formatString_precedence
      [of "JObj [(''x'', JStr ''call'')]" opaque_host "''x''" "JStr ''call''"
        "JObj [(''x'', JStr ''device'')]"]
    by (simp add: inherited_def object_prototype_def)
  moreover have
    "formatString_param opaque_host (JObj [(''y'', JStr ''device'')]) (JObj [(''x'', JStr ''call'')]) ''y''
     = Inr (JStr ''device'')"
    using formatString_precedence
      [of "JObj [(''x'', JStr ''call'')]" opaque_host "''y''" _ "JObj [(''y'', JStr ''device'')]"]
    by (simp add: inherited_def object_prototype_def)
  moreover have "formatString_param opaque_host (JObj [(''y'', JStr ''device'')]) JUndefined ''y''
     = Inr (JStr ''device'')"
    using formatString_precedence
      [of JUndefined opaque_host "''y''" _ "JObj [(''y'', JStr ''device'')]"]
    by (simp add: inherited_def object_prototype_def)
  moreover have
    "\<exists>s. formatString opaque_host (\<lambda>name v. []) ''http://${host}/${y}'' (JObj [(''y'', JStr ''device'')])
          JUndefined = Inr s"
    using formatString_precedence [of _ opaque_host _ _ "JObj [(''y'', JStr ''device'')]"]
    by (simp add: inherited_def object_prototype_def)
  ultimately show ?thesis by blast
qed

text \<open>
  Claim C10. When \<^verbatim>\<open>functionParams\<close> is supplied and holds a falsy value for a name, the
  empty string for one, the placeholder is resolved from \<^verbatim>\<open>deviceParams\<close>: what decides
  between the two scopes is the truthiness of \<^verbatim>\<open>functionParams[param]\<close>, not the presence
  of the key. With \<^verbatim>\<open>{x:""}\<close> as \<^verbatim>\<open>functionParams\<close>, which owns the key \<^verbatim>\<open>x\<close>,
  \<^verbatim>\<open>format("${x}", {x:"device"}, {x:""})\<close> is \<^verbatim>\<open>"device"\<close>.
\<close>

theorem formatString_falsy:
  "(truthy functionParams \<and> js_get H functionParams param = Inr a \<and> \<not> truthy a
      \<longrightarrow> formatString_param H deviceParams functionParams param = js_get H deviceParams param)
   \<and> hasOwnProperty H (JObj [(''x'', JStr '''')]) ''x'' = Inr True
   \<and> formatString_param H (JObj [(''x'', JStr ''device'')]) (JObj [(''x'', JStr '''')]) ''x''
      = Inr (JStr ''device'')
   \<and> formatString H render ''${x}'' (JObj [(''x'', JStr ''device'')]) (JObj [(''x'', JStr '''')])
      = Inr ''device''"
  by (simp add: formatString_def formatString_param_def substitute_def inherited_def
        object_prototype_def)

theorem formatString_falsy_witness:
  "formatString_param opaque_host (JObj [(''token'', JStr ''d'')])
     (JObj [(''token'', JStr ''''), (''q'', JStr ''z'')]) ''token'' = Inr (JStr ''d'')"
  using formatString_falsy
    [of "JObj [(''token'', JStr ''''), (''q'', JStr ''z'')]" opaque_host "''token''" "JStr ''''"
      "JObj [(''token'', JStr ''d'')]"]
  by (simp add: inherited_def object_prototype_def)

end
